theory Spec2Isabelle
  imports Main "HOL-Library.Word"
begin

section \<open>The spill sort sink of be/src/pipeline/exec/spill\_sort\_sink\_operator.cpp\<close>

text \<open>
  The operator is embedded by explicit state passing. One record holds the fields of
  \<^verbatim>\<open>SpillSortSinkLocalState\<close>, of its \<^verbatim>\<open>SpillSortSharedState\<close> and the
  operator's \<^verbatim>\<open>_enable_spill\<close>. The collaborators (the delegate sort sink and its
  sorter, the spill stream manager, the spill stream, the io thread pool, the two
  dependencies and the condition variable) are not part of the file: every call the code
  makes to one of them is appended to the \<open>trace\<close> of the state, in program order, and
  what the collaborator answers is an input of the model (the \<open>env\<close> records).
  Logging, timers and the profile counters of the spill stream are left out; the input
  row counter and the memory tracker's consumption are kept.
\<close>

subsection \<open>Data\<close>

text \<open>\<^verbatim>\<open>Status\<close>: OK, or an error with its code.\<close>

datatype status = OK | Error nat

fun ok :: "status \<Rightarrow> bool" where
  "ok OK = True"
| "ok (Error c) = False"

text \<open>A \<^verbatim>\<open>vectorized::Block\<close> is the list of its rows; \<^verbatim>\<open>rows()\<close> is its length.\<close>

type_synonym block = "nat list"

definition rows :: "block \<Rightarrow> nat" where
  "rows b = length b"

text \<open>A \<^verbatim>\<open>SpillStreamSPtr\<close> is the identifier of the stream it points to.\<close>

type_synonym stream = nat

text \<open>The calls to the collaborators.\<close>

datatype event =
    SorterSink block bool
  | SorterPrepareForRead
  | SorterPrepareForSpill
  | SorterMergeSortReadForSpill "nat option"
  | SorterReset
  | RegisterSpillStream "nat option"
  | PrepareSpill stream
  | SpillBlock stream block bool
  | EndSpill stream status
  | SubmitFunc stream
  | DepBlock
  | DepSetReady
  | DepSetReadyToRead
  | FinishDepBlock
  | FinishDepSetReady
  | SpillCvNotifyOne

text \<open>The events that signal \<^verbatim>\<open>_dependency\<close> or \<^verbatim>\<open>_finish_dependency\<close>.\<close>

fun gate_event :: "event \<Rightarrow> bool" where
  "gate_event DepBlock = True"
| "gate_event DepSetReady = True"
| "gate_event DepSetReadyToRead = True"
| "gate_event FinishDepBlock = True"
| "gate_event FinishDepSetReady = True"
| "gate_event e = False"

text \<open>The events of the drain: reading a batch, writing it, resetting the sorter.\<close>

fun drain_event :: "event \<Rightarrow> bool" where
  "drain_event (SorterMergeSortReadForSpill n) = True"
| "drain_event (SpillBlock stream b e) = True"
| "drain_event SorterReset = True"
| "drain_event e = False"

record sink_state =
  enable_spill :: bool
  sink_status :: status
  sorted_streams :: "stream list"
  spill_block_batch_row_count :: "nat option"
  is_spilling :: bool
  spilling_stream :: "stream option"
  eos :: bool
  rows_input_counter :: "64 word"
  mem_consumption :: "64 word"
  trace :: "event list"

text \<open>
  The outcome of a call: \<open>Aborted\<close> when the process stops inside it (a failed
  \<^verbatim>\<open>DCHECK\<close>, a null \<^verbatim>\<open>_spilling_stream\<close> dereferenced), \<open>Running\<close> when
  the drain loop has not left within the iterations the environment describes, and
  \<open>Finished\<close> with what the call returns.
\<close>

datatype 'a exec = Aborted | Running | Finished 'a

definition emit :: "event \<Rightarrow> sink_state \<Rightarrow> sink_state" where
  "emit e s = s\<lparr>trace := trace s @ [e]\<rparr>"

subsection \<open>Set-up\<close>

text \<open>
  \<^verbatim>\<open>SpillSortSinkLocalState::init\<close> (lines 30 to 47): the shared state takes the
  operator's \<^verbatim>\<open>_enable_spill\<close>, and the finish dependency is blocked when it is set.
  The other members start from their initialisers: no failure, no stream, not spilling,
  not at the end of the stream.
\<close>

definition init_state :: "bool \<Rightarrow> sink_state" where
  "init_state enable =
     \<lparr>enable_spill = enable, sink_status = OK, sorted_streams = [],
      spill_block_batch_row_count = None, is_spilling = False, spilling_stream = None,
      eos = False, rows_input_counter = 0, mem_consumption = 0,
      trace = (if enable then [FinishDepBlock] else [])\<rparr>"

subsection \<open>\<^verbatim>\<open>SpillSortSinkOperatorX::revocable_mem_size\<close> (lines 151 to 160)\<close>

definition UINT64_MAX :: "64 word" where
  "UINT64_MAX = 18446744073709551615"

text \<open>
  \<open>get_revocable_mem_size\<close> is what the delegate's
  \<^verbatim>\<open>get_revocable_mem_size\<close> returns at this call.
\<close>

definition revocable_mem_size :: "64 word \<Rightarrow> sink_state \<Rightarrow> 64 word" where
  "revocable_mem_size get_revocable_mem_size s =
     (if \<not> enable_spill s then 0
      else if \<not> ok (sink_status s) then UINT64_MAX
      else get_revocable_mem_size)"

subsection \<open>\<^verbatim>\<open>SpillSortSinkLocalState::revoke_memory\<close>, the calling thread (lines 189 to 221, 282 to 291)\<close>

text \<open>
  What the collaborators answer during one call: whether \<^verbatim>\<open>DCHECK\<close> is compiled in
  (a debug build), the status of \<^verbatim>\<open>register_spill_stream\<close> with the stream it
  stores in \<^verbatim>\<open>_spilling_stream\<close> when it succeeds, the status of
  \<^verbatim>\<open>prepare_spill\<close>, and the status of \<^verbatim>\<open>submit_func\<close>.
\<close>

record revoke_env =
  dcheck_on :: bool
  register_spill_stream :: "status \<times> stream"
  prepare_spill :: status
  submit_func :: status

definition revoke_memory :: "revoke_env \<Rightarrow> sink_state \<Rightarrow> (status \<times> sink_state) exec" where
  "revoke_memory env s =
     (if dcheck_on env \<and> is_spilling s then Aborted
      else
        let s1 = s\<lparr>is_spilling := True\<rparr> in
        if \<not> ok (sink_status s1) then Finished (sink_status s1, s1)
        else
          let status = fst (register_spill_stream env);
              stream = snd (register_spill_stream env);
              s2 = emit (RegisterSpillStream (spill_block_batch_row_count s1)) s1
          in
          if \<not> ok status then Finished (status, s2)
          else
            let s3 = s2\<lparr>spilling_stream := Some stream\<rparr>;
                status = prepare_spill env;
                s4 = emit (PrepareSpill stream) s3
            in
            if \<not> ok status then Finished (status, s4)
            else
              let s5 = s4\<lparr>sorted_streams := sorted_streams s4 @ [stream]\<rparr>;
                  s6 = (if \<not> eos s5 then emit DepBlock s5 else s5);
                  status = submit_func env;
                  s7 = emit (SubmitFunc stream) s6
              in
              if \<not> ok status then
                let s8 = s7\<lparr>is_spilling := False\<rparr>;
                    s9 = emit (EndSpill stream status) s8;
                    s10 = (if \<not> eos s9 then emit DepSetReady s9 else s9)
                in Finished (status, s10)
              else Finished (status, s7))"

subsection \<open>The closure given to \<^verbatim>\<open>submit_func\<close> (lines 221 to 281)\<close>

text \<open>
  Modelled from the spec: \<^verbatim>\<open>SpillSortSharedState::clear\<close> is defined outside this
  file. The spec: it "clears all shared spill state (drop all accumulated runs)".
\<close>

definition clear :: "sink_state \<Rightarrow> sink_state" where
  "clear s = s\<lparr>sorted_streams := []\<rparr>"

text \<open>
  One iteration of the drain loop, as the environment answers it: whether the query is
  cancelled when the loop condition is evaluated, the status, block and end flag of
  \<^verbatim>\<open>merge_sort_read_for_spill\<close>, and the status of \<^verbatim>\<open>spill_block\<close>.
\<close>

record spill_iter =
  is_cancelled :: bool
  merge_sort_read_for_spill :: "status \<times> block \<times> bool"
  spill_block :: status

record spill_env =
  prepare_for_spill :: status
  iterations :: "spill_iter list"

text \<open>
  The \<^verbatim>\<open>while (!eos && !state->is_cancelled())\<close> loop of lines 261 to 277. The
  result carries \<open>Some status\<close> when \<^verbatim>\<open>RETURN_IF_ERROR\<close> leaves the closure, and
  \<open>None\<close> when the loop condition ends the loop.
\<close>

fun spill_loop :: "spill_iter list \<Rightarrow> bool \<Rightarrow> sink_state \<Rightarrow> (status option \<times> sink_state) exec" where
  "spill_loop [] eos_l s = (if eos_l then Finished (None, s) else Running)"
| "spill_loop (it # its) eos_l s =
     (if eos_l \<or> is_cancelled it then Finished (None, s)
      else
        let status = fst (merge_sort_read_for_spill it);
            block = fst (snd (merge_sort_read_for_spill it));
            eos_l' = snd (snd (merge_sort_read_for_spill it));
            s1 = emit (SorterMergeSortReadForSpill (spill_block_batch_row_count s))
                   (s\<lparr>sink_status := status\<rparr>)
        in
        if \<not> ok (sink_status s1) then Finished (Some (sink_status s1), s1)
        else
          (case spilling_stream s1 of
             None \<Rightarrow> Aborted
           | Some stream \<Rightarrow>
               let s2 = emit (SpillBlock stream block eos_l')
                          (s1\<lparr>sink_status := spill_block it\<rparr>)
               in
               if \<not> ok (sink_status s2) then Finished (Some (sink_status s2), s2)
               else spill_loop its eos_l' s2))"

text \<open>The body of the closure, lines 252 to 280, up to its \<^verbatim>\<open>return\<close>.\<close>

definition spill_body :: "spill_env \<Rightarrow> sink_state \<Rightarrow> (status \<times> sink_state) exec" where
  "spill_body env s =
     (let s1 = emit SorterPrepareForSpill (s\<lparr>sink_status := prepare_for_spill env\<rparr>) in
      if \<not> ok (sink_status s1) then Finished (sink_status s1, s1)
      else
        (case spill_loop (iterations env) False s1 of
           Aborted \<Rightarrow> Aborted
         | Running \<Rightarrow> Running
         | Finished (Some status, s2) \<Rightarrow> Finished (status, s2)
         | Finished (None, s2) \<Rightarrow> Finished (OK, emit SorterReset s2)))"

text \<open>The \<^verbatim>\<open>Defer\<close> of lines 223 to 250, run when the closure returns.\<close>

definition spill_defer :: "sink_state \<Rightarrow> sink_state exec" where
  "spill_defer s =
     (case spilling_stream s of
        None \<Rightarrow> Aborted
      | Some stream \<Rightarrow>
          let s1 = emit (EndSpill stream (sink_status s)) s;
              s2 = (if \<not> ok (sink_status s1) then clear s1 else s1);
              s3 = s2\<lparr>spilling_stream := None\<rparr>;
              s4 = s3\<lparr>is_spilling := False\<rparr>;
              s5 = (if eos s4 then emit FinishDepSetReady (emit DepSetReadyToRead s4)
                    else emit DepSetReady s4)
          in Finished (emit SpillCvNotifyOne s5))"

definition spill_func :: "spill_env \<Rightarrow> sink_state \<Rightarrow> sink_state exec" where
  "spill_func env s =
     (case spill_body env s of
        Aborted \<Rightarrow> Aborted
      | Running \<Rightarrow> Running
      | Finished (status, s1) \<Rightarrow> spill_defer s1)"

text \<open>
  Whether the drain loop leaves within the iterations given: by its condition, or by a
  failure of the read or of the write.
\<close>

fun loop_exits :: "spill_iter list \<Rightarrow> bool \<Rightarrow> bool" where
  "loop_exits [] eos_l = eos_l"
| "loop_exits (it # its) eos_l =
     (eos_l \<or> is_cancelled it \<or> \<not> ok (fst (merge_sort_read_for_spill it)) \<or>
      \<not> ok (spill_block it) \<or> loop_exits its (snd (snd (merge_sort_read_for_spill it))))"

text \<open>
  An iteration that reads and writes one batch and goes on, and an iteration that fails
  with code \<open>c\<close>: at the read, or at the write after a read that succeeded.
\<close>

definition good_iter :: "spill_iter \<Rightarrow> bool" where
  "good_iter it =
     (\<not> is_cancelled it \<and> ok (fst (merge_sort_read_for_spill it)) \<and>
      \<not> snd (snd (merge_sort_read_for_spill it)) \<and> ok (spill_block it))"

definition failing_iter :: "spill_iter \<Rightarrow> nat \<Rightarrow> bool" where
  "failing_iter it c =
     (\<not> is_cancelled it \<and>
      (fst (merge_sort_read_for_spill it) = Error c \<or>
       ok (fst (merge_sort_read_for_spill it)) \<and> spill_block it = Error c))"

subsection \<open>\<^verbatim>\<open>SpillSortSinkOperatorX::revoke_memory\<close> (lines 144 to 150)\<close>

definition op_revoke_memory :: "revoke_env \<Rightarrow> sink_state \<Rightarrow> (status \<times> sink_state) exec" where
  "op_revoke_memory env s =
     (if \<not> enable_spill s then Finished (OK, s) else revoke_memory env s)"

subsection \<open>\<^verbatim>\<open>SpillSortSinkOperatorX::sink\<close> (lines 161 to 188)\<close>

text \<open>
  Modelled from the spec: \<^verbatim>\<open>update_spill_block_batch_row_count\<close> is defined outside
  this file. The spec: "on first non-empty batch, fixes \<open>spill_batch_row_count\<close> from the
  batch's row count". \<open>None\<close> is the count not fixed yet.
\<close>

definition update_spill_block_batch_row_count :: "block \<Rightarrow> sink_state \<Rightarrow> sink_state" where
  "update_spill_block_batch_row_count in_block s =
     (case spill_block_batch_row_count s of
        None \<Rightarrow> s\<lparr>spill_block_batch_row_count := Some (rows in_block)\<rparr>
      | Some n \<Rightarrow> s)"

text \<open>
  What the collaborators answer during one call of \<^verbatim>\<open>sink\<close>: the status of the
  delegate's \<^verbatim>\<open>sink\<close>, the sorter's \<^verbatim>\<open>data_size\<close>, the delegate's
  \<^verbatim>\<open>get_revocable_mem_size\<close>, the status of the sorter's \<^verbatim>\<open>prepare_for_read\<close>,
  and the answers to \<^verbatim>\<open>revoke_memory\<close> should the call reach it.
\<close>

record sink_env =
  sorter_sink :: status
  sorter_data_size :: "64 word"
  sorter_revocable_mem_size :: "64 word"
  sorter_prepare_for_read :: status
  revoke :: revoke_env

definition sink :: "sink_env \<Rightarrow> block \<Rightarrow> bool \<Rightarrow> sink_state \<Rightarrow> (status \<times> sink_state) exec" where
  "sink env in_block eos_in s =
     (if \<not> ok (sink_status s) then Finished (sink_status s, s)
      else
        let s1 = s\<lparr>rows_input_counter := rows_input_counter s + of_nat (rows in_block)\<rparr>;
            s2 = (if rows in_block > 0 then update_spill_block_batch_row_count in_block s1
                  else s1);
            s3 = s2\<lparr>eos := eos_in\<rparr>;
            s4 = emit (SorterSink in_block False) s3
        in
        if \<not> ok (sorter_sink env) then Finished (sorter_sink env, s4)
        else
          let s5 = s4\<lparr>mem_consumption := sorter_data_size env\<rparr> in
          if eos_in then
            if enable_spill s5 then
              if revocable_mem_size (sorter_revocable_mem_size env) s5 > 0 then
                (case op_revoke_memory (revoke env) s5 of
                   Aborted \<Rightarrow> Aborted
                 | Running \<Rightarrow> Running
                 | Finished (status, s6) \<Rightarrow>
                     if \<not> ok status then Finished (status, s6) else Finished (OK, s6))
              else Finished (OK, emit DepSetReadyToRead s5)
            else
              let s6 = emit SorterPrepareForRead s5 in
              if \<not> ok (sorter_prepare_for_read env)
              then Finished (sorter_prepare_for_read env, s6)
              else Finished (OK, emit DepSetReadyToRead s6)
          else Finished (OK, s5))"

text \<open>
  A serialized sequence of \<^verbatim>\<open>sink\<close> calls, as the pipeline task makes them: each
  call runs on the state the one before left; the statuses returned are collected.
\<close>

fun run_sinks :: "(sink_env \<times> block \<times> bool) list \<Rightarrow> sink_state \<Rightarrow> (status list \<times> sink_state) exec" where
  "run_sinks [] s = Finished ([], s)"
| "run_sinks (c # cs) s =
     (case sink (fst c) (fst (snd c)) (snd (snd c)) s of
        Aborted \<Rightarrow> Aborted
      | Running \<Rightarrow> Running
      | Finished (status, s1) \<Rightarrow>
          (case run_sinks cs s1 of
             Aborted \<Rightarrow> Aborted
           | Running \<Rightarrow> Running
           | Finished (statuses, s2) \<Rightarrow> Finished (status # statuses, s2)))"

text \<open>
  A serialized schedule of one sink instance: the \<^verbatim>\<open>sink\<close> calls of the pipeline
  task, and between them the runs of the closure that an earlier call has submitted. Each
  step runs on the state the one before left.
\<close>

datatype step = SinkCall sink_env block bool | SpillJob spill_env

fun run_steps :: "step list \<Rightarrow> sink_state \<Rightarrow> sink_state exec" where
  "run_steps [] s = Finished s"
| "run_steps (SinkCall env in_block eos_in # steps) s =
     (case sink env in_block eos_in s of
        Aborted \<Rightarrow> Aborted
      | Running \<Rightarrow> Running
      | Finished (status, s1) \<Rightarrow> run_steps steps s1)"
| "run_steps (SpillJob env # steps) s =
     (case spill_func env s of
        Aborted \<Rightarrow> Aborted
      | Running \<Rightarrow> Running
      | Finished s1 \<Rightarrow> run_steps steps s1)"

subsection \<open>Concrete answers of the collaborators and concrete states\<close>

text \<open>
  A debug build in which every step of \<^verbatim>\<open>revoke_memory\<close> succeeds and the stream
  manager hands out stream 7; and the same with one step failing.
\<close>

definition ok_revoke_env :: revoke_env where
  "ok_revoke_env =
     \<lparr>dcheck_on = True, register_spill_stream = (OK, 7), prepare_spill = OK, submit_func = OK\<rparr>"

definition register_failure_env :: revoke_env where
  "register_failure_env = ok_revoke_env\<lparr>register_spill_stream := (Error 1, 0)\<rparr>"

definition prepare_failure_env :: revoke_env where
  "prepare_failure_env = ok_revoke_env\<lparr>prepare_spill := Error 2\<rparr>"

definition submit_failure_env :: revoke_env where
  "submit_failure_env = ok_revoke_env\<lparr>submit_func := Error 3\<rparr>"

text \<open>
  A \<^verbatim>\<open>sink\<close> call whose delegate accepts the block and reports 64 bytes of data, all
  of them revocable; and one whose delegate reports nothing revocable.
\<close>

definition ok_sink_env :: sink_env where
  "ok_sink_env =
     \<lparr>sorter_sink = OK, sorter_data_size = 64, sorter_revocable_mem_size = 64,
      sorter_prepare_for_read = OK, revoke = ok_revoke_env\<rparr>"

definition empty_sink_env :: sink_env where
  "empty_sink_env = ok_sink_env\<lparr>sorter_data_size := 0, sorter_revocable_mem_size := 0\<rparr>"

text \<open>
  An iteration of the drain loop that reads a block and writes it; a spill of two
  batches that succeeds; and a spill whose second write fails with code 5.
\<close>

definition batch_iter :: "block \<Rightarrow> bool \<Rightarrow> spill_iter" where
  "batch_iter b last_batch =
     \<lparr>is_cancelled = False, merge_sort_read_for_spill = (OK, b, last_batch), spill_block = OK\<rparr>"

definition ok_spill_env :: spill_env where
  "ok_spill_env =
     \<lparr>prepare_for_spill = OK, iterations = [batch_iter [1, 2] False, batch_iter [3] True]\<rparr>"

definition failing_spill_env :: spill_env where
  "failing_spill_env =
     \<lparr>prepare_for_spill = OK,
      iterations = [batch_iter [1, 2] False, (batch_iter [3] True)\<lparr>spill_block := Error 5\<rparr>]\<rparr>"

text \<open>
  A sink with spill enabled that holds the completed run 3 and is spilling run 7 (what
  \<^verbatim>\<open>revoke_memory\<close> leaves when its steps succeed); and a sink on which a failure
  is latched.
\<close>

definition spilling_state :: sink_state where
  "spilling_state =
     (init_state True)\<lparr>sorted_streams := [3, 7], spill_block_batch_row_count := Some 2,
       is_spilling := True, spilling_stream := Some 7\<rparr>"

definition failed_state :: sink_state where
  "failed_state = (init_state True)\<lparr>sink_status := Error 9\<rparr>"

section \<open>Properties\<close>

subsection \<open>Auxiliary facts\<close>

lemmas example_defs =
  ok_revoke_env_def register_failure_env_def prepare_failure_env_def submit_failure_env_def
  ok_sink_env_def empty_sink_env_def batch_iter_def ok_spill_env_def failing_spill_env_def
  spilling_state_def failed_state_def init_state_def

lemma emit_fields [simp]:
  "enable_spill (emit e s) = enable_spill s"
  "sink_status (emit e s) = sink_status s"
  "sorted_streams (emit e s) = sorted_streams s"
  "spill_block_batch_row_count (emit e s) = spill_block_batch_row_count s"
  "is_spilling (emit e s) = is_spilling s"
  "spilling_stream (emit e s) = spilling_stream s"
  "eos (emit e s) = eos s"
  "rows_input_counter (emit e s) = rows_input_counter s"
  "mem_consumption (emit e s) = mem_consumption s"
  "trace (emit e s) = trace s @ [e]"
  by (simp_all add: emit_def)

lemma update_count_fields [simp]:
  "enable_spill (update_spill_block_batch_row_count b s) = enable_spill s"
  "sink_status (update_spill_block_batch_row_count b s) = sink_status s"
  "sorted_streams (update_spill_block_batch_row_count b s) = sorted_streams s"
  "is_spilling (update_spill_block_batch_row_count b s) = is_spilling s"
  "spilling_stream (update_spill_block_batch_row_count b s) = spilling_stream s"
  "eos (update_spill_block_batch_row_count b s) = eos s"
  "trace (update_spill_block_batch_row_count b s) = trace s"
  by (simp_all add: update_spill_block_batch_row_count_def split: option.splits)

lemma clear_fields [simp]:
  "enable_spill (clear s) = enable_spill s"
  "sink_status (clear s) = sink_status s"
  "sorted_streams (clear s) = []"
  "is_spilling (clear s) = is_spilling s"
  "spilling_stream (clear s) = spilling_stream s"
  "eos (clear s) = eos s"
  "trace (clear s) = trace s"
  by (simp_all add: clear_def)

lemma drain_event_cases:
  assumes "drain_event ev"
  shows "\<not> gate_event ev" and "ev \<noteq> SorterSink b f" and "ev \<noteq> SorterPrepareForRead"
    and "ev \<noteq> SorterPrepareForSpill"
  using assms by (cases ev; simp)+

lemma UINT64_MAX_top: "w \<le> UINT64_MAX"
proof -
  have h: "UINT64_MAX = (- 1 :: 64 word)"
    by (simp add: UINT64_MAX_def)
  show ?thesis
    unfolding h by simp
qed

lemma return_if_error:
  "(if \<not> ok status then Finished (status, s) else Finished (OK, s)) = Finished (status, s)"
  by (cases status) simp_all

subsubsection \<open>\<^verbatim>\<open>revoke_memory\<close>\<close>

lemma revoke_memory_outcome:
  "revoke_memory env s = Aborted \<longleftrightarrow> dcheck_on env \<and> is_spilling s"
  "revoke_memory env s \<noteq> Running"
  by (simp_all add: revoke_memory_def Let_def)

lemma revoke_memory_frame:
  assumes "revoke_memory env s = Finished (status, s')"
  shows "eos s' = eos s \<and> sink_status s' = sink_status s \<and> enable_spill s' = enable_spill s \<and>
         (\<exists>evs. trace s' = trace s @ evs \<and> (\<forall>b f. SorterSink b f \<notin> set evs) \<and>
            SorterPrepareForRead \<notin> set evs \<and> SorterPrepareForSpill \<notin> set evs)"
  using assms by (auto simp add: revoke_memory_def Let_def split: if_splits)

lemma revoke_memory_finishes:
  assumes "\<not> (dcheck_on env \<and> is_spilling s)"
  shows "\<exists>status s'. revoke_memory env s = Finished (status, s')"
proof (cases "revoke_memory env s")
  case Aborted
  then show ?thesis using assms by (simp add: revoke_memory_outcome)
next
  case Running
  then show ?thesis by (simp add: revoke_memory_outcome)
next
  case (Finished r)
  then show ?thesis by (cases r) simp
qed

text \<open>
  A call on a latched failure returns it at line 195: after line 191 has set
  \<^verbatim>\<open>_is_spilling\<close>, before any collaborator is called.
\<close>

lemma revoke_memory_latched_failure:
  assumes "sink_status s = Error c" and "\<not> (dcheck_on env \<and> is_spilling s)"
  shows "revoke_memory env s = Finished (Error c, s\<lparr>is_spilling := True\<rparr>)"
  using assms by (auto simp add: revoke_memory_def Let_def)

lemma revoke_memory_submitted:
  assumes "\<not> (dcheck_on env \<and> is_spilling s)"
    and "ok (sink_status s)"
    and "register_spill_stream env = (OK, stream)"
    and "prepare_spill env = OK"
    and "submit_func env = OK"
  shows "\<exists>s1. revoke_memory env s = Finished (OK, s1) \<and>
           trace s1 = trace s @ [RegisterSpillStream (spill_block_batch_row_count s), PrepareSpill stream]
              @ (if eos s then [] else [DepBlock]) @ [SubmitFunc stream] \<and>
           spilling_stream s1 = Some stream \<and> eos s1 = eos s \<and> is_spilling s1 \<and>
           sorted_streams s1 = sorted_streams s @ [stream]"
  using assms by (auto simp add: revoke_memory_def Let_def)

subsubsection \<open>The drain loop and the closure\<close>

lemma spill_loop_Cons:
  assumes "spilling_stream s = Some stream" and "\<not> eos_l" and "\<not> is_cancelled it"
  shows "spill_loop (it # its) eos_l s =
     (if \<not> ok (fst (merge_sort_read_for_spill it))
      then Finished (Some (fst (merge_sort_read_for_spill it)),
             emit (SorterMergeSortReadForSpill (spill_block_batch_row_count s))
               (s\<lparr>sink_status := fst (merge_sort_read_for_spill it)\<rparr>))
      else if \<not> ok (spill_block it)
      then Finished (Some (spill_block it),
             emit (SpillBlock stream (fst (snd (merge_sort_read_for_spill it)))
                     (snd (snd (merge_sort_read_for_spill it))))
               ((emit (SorterMergeSortReadForSpill (spill_block_batch_row_count s))
                  (s\<lparr>sink_status := fst (merge_sort_read_for_spill it)\<rparr>))
                \<lparr>sink_status := spill_block it\<rparr>))
      else spill_loop its (snd (snd (merge_sort_read_for_spill it)))
             (emit (SpillBlock stream (fst (snd (merge_sort_read_for_spill it)))
                     (snd (snd (merge_sort_read_for_spill it))))
               ((emit (SorterMergeSortReadForSpill (spill_block_batch_row_count s))
                  (s\<lparr>sink_status := fst (merge_sort_read_for_spill it)\<rparr>))
                \<lparr>sink_status := spill_block it\<rparr>)))"
  using assms by (simp add: Let_def)

lemma spill_loop_exits:
  assumes "spilling_stream s = Some stream" and "loop_exits its eos_l"
  shows "\<exists>r s' evs. spill_loop its eos_l s = Finished (r, s') \<and>
           trace s' = trace s @ evs \<and> (\<forall>ev\<in>set evs. drain_event ev) \<and>
           spilling_stream s' = Some stream \<and> eos s' = eos s \<and>
           is_spilling s' = is_spilling s \<and> sorted_streams s' = sorted_streams s"
  using assms
proof (induction its arbitrary: eos_l s)
  case Nil
  then show ?case by simp
next
  case (Cons it its)
  show ?case
  proof (cases "eos_l \<or> is_cancelled it")
    case True
    then show ?thesis using Cons.prems by auto
  next
    case False
    note nf = False
    define s1 where "s1 = emit (SorterMergeSortReadForSpill (spill_block_batch_row_count s))
                   (s\<lparr>sink_status := fst (merge_sort_read_for_spill it)\<rparr>)"
    define s2 where "s2 = emit (SpillBlock stream (fst (snd (merge_sort_read_for_spill it)))
                                  (snd (snd (merge_sort_read_for_spill it))))
                          (s1\<lparr>sink_status := spill_block it\<rparr>)"
    have s1f: "trace s1 = trace s @ [SorterMergeSortReadForSpill (spill_block_batch_row_count s)]"
      "spilling_stream s1 = Some stream" "eos s1 = eos s" "is_spilling s1 = is_spilling s"
      "sorted_streams s1 = sorted_streams s"
      using Cons.prems(1) by (simp_all add: s1_def)
    have s2f: "trace s2 = trace s @ [SorterMergeSortReadForSpill (spill_block_batch_row_count s),
          SpillBlock stream (fst (snd (merge_sort_read_for_spill it))) (snd (snd (merge_sort_read_for_spill it)))]"
      "spilling_stream s2 = Some stream" "eos s2 = eos s" "is_spilling s2 = is_spilling s"
      "sorted_streams s2 = sorted_streams s"
      using s1f by (simp_all add: s2_def)
    have step: "spill_loop (it # its) eos_l s =
        (if \<not> ok (fst (merge_sort_read_for_spill it))
         then Finished (Some (fst (merge_sort_read_for_spill it)), s1)
         else if \<not> ok (spill_block it) then Finished (Some (spill_block it), s2)
         else spill_loop its (snd (snd (merge_sort_read_for_spill it))) s2)"
      using nf spill_loop_Cons [OF Cons.prems(1), of eos_l it its]
      by (simp add: s1_def s2_def)
    show ?thesis
    proof (cases "ok (fst (merge_sort_read_for_spill it))")
      case False
      then show ?thesis using step s1f by simp
    next
      case True
      note ok1 = True
      show ?thesis
      proof (cases "ok (spill_block it)")
        case False
        then show ?thesis using step ok1 s2f by simp
      next
        case True
        have "loop_exits its (snd (snd (merge_sort_read_for_spill it)))"
          using Cons.prems(2) nf ok1 True by simp
        from Cons.IH [OF s2f(2) this]
        obtain r s' evs where
          h: "spill_loop its (snd (snd (merge_sort_read_for_spill it))) s2 = Finished (r, s')"
            "trace s' = trace s2 @ evs" "\<forall>ev\<in>set evs. drain_event ev"
            "spilling_stream s' = Some stream" "eos s' = eos s2"
            "is_spilling s' = is_spilling s2" "sorted_streams s' = sorted_streams s2"
          by blast
        define evs' where "evs' = [SorterMergeSortReadForSpill (spill_block_batch_row_count s),
              SpillBlock stream (fst (snd (merge_sort_read_for_spill it)))
                (snd (snd (merge_sort_read_for_spill it)))] @ evs"
        have "spill_loop (it # its) eos_l s = Finished (r, s')"
          using step ok1 True h(1) by simp
        moreover have "trace s' = trace s @ evs'"
          using h(2) s2f(1) by (simp add: evs'_def)
        moreover have "\<forall>ev\<in>set evs'. drain_event ev"
          using h(3) by (simp add: evs'_def)
        ultimately show ?thesis
          using h(4-7) s2f(2-5) by metis
      qed
    qed
  qed
qed

lemma spill_loop_fails:
  assumes "spilling_stream s = Some stream" and "\<forall>it\<in>set goods. good_iter it"
    and "failing_iter bad c"
  shows "\<exists>s' evs. spill_loop (goods @ bad # rest) False s = Finished (Some (Error c), s') \<and>
           sink_status s' = Error c \<and> trace s' = trace s @ evs \<and>
           (\<forall>ev\<in>set evs. drain_event ev) \<and>
           (\<forall>it\<in>set goods. SpillBlock stream (fst (snd (merge_sort_read_for_spill it))) False \<in> set evs) \<and>
           spilling_stream s' = Some stream \<and> eos s' = eos s \<and>
           is_spilling s' = is_spilling s \<and> sorted_streams s' = sorted_streams s"
  using assms(1,2)
proof (induction goods arbitrary: s)
  case Nil
  have nc: "\<not> is_cancelled bad"
    using assms(3) by (simp add: failing_iter_def)
  note step = spill_loop_Cons [OF Nil.prems(1) _ nc, of False rest]
  show ?case
  proof (cases "fst (merge_sort_read_for_spill bad) = Error c")
    case True
    then show ?thesis using step Nil.prems(1) by simp
  next
    case False
    then have "ok (fst (merge_sort_read_for_spill bad))" "spill_block bad = Error c"
      using assms(3) by (auto simp add: failing_iter_def)
    then show ?thesis using step Nil.prems(1) by simp
  qed
next
  case (Cons g goods)
  have g: "\<not> is_cancelled g" "ok (fst (merge_sort_read_for_spill g))"
    "\<not> snd (snd (merge_sort_read_for_spill g))" "ok (spill_block g)"
    using Cons.prems(2) by (simp_all add: good_iter_def)
  define s2 where "s2 = emit (SpillBlock stream (fst (snd (merge_sort_read_for_spill g))) False)
               ((emit (SorterMergeSortReadForSpill (spill_block_batch_row_count s))
                  (s\<lparr>sink_status := fst (merge_sort_read_for_spill g)\<rparr>))
                \<lparr>sink_status := spill_block g\<rparr>)"
  have s2f: "trace s2 = trace s @ [SorterMergeSortReadForSpill (spill_block_batch_row_count s),
        SpillBlock stream (fst (snd (merge_sort_read_for_spill g))) False]"
    "spilling_stream s2 = Some stream" "eos s2 = eos s" "is_spilling s2 = is_spilling s"
    "sorted_streams s2 = sorted_streams s"
    using Cons.prems(1) by (simp_all add: s2_def)
  have step: "spill_loop ((g # goods) @ bad # rest) False s = spill_loop (goods @ bad # rest) False s2"
    using spill_loop_Cons [OF Cons.prems(1) _ g(1), of False "goods @ bad # rest"] g
    by (simp add: s2_def)
  have "\<forall>it\<in>set goods. good_iter it"
    using Cons.prems(2) by simp
  from Cons.IH [OF s2f(2) this]
  obtain s' evs where
    h: "spill_loop (goods @ bad # rest) False s2 = Finished (Some (Error c), s')"
      "sink_status s' = Error c" "trace s' = trace s2 @ evs"
      "\<forall>ev\<in>set evs. drain_event ev"
      "\<forall>it\<in>set goods. SpillBlock stream (fst (snd (merge_sort_read_for_spill it))) False \<in> set evs"
      "spilling_stream s' = Some stream" "eos s' = eos s2"
      "is_spilling s' = is_spilling s2" "sorted_streams s' = sorted_streams s2"
    by blast
  define evs' where "evs' = [SorterMergeSortReadForSpill (spill_block_batch_row_count s),
        SpillBlock stream (fst (snd (merge_sort_read_for_spill g))) False] @ evs"
  have t: "trace s' = trace s @ evs'"
    using h(3) s2f(1) by (simp add: evs'_def)
  have ng: "\<forall>ev\<in>set evs'. drain_event ev"
    using h(4) by (simp add: evs'_def)
  have wr: "\<forall>it\<in>set (g # goods). SpillBlock stream (fst (snd (merge_sort_read_for_spill it))) False \<in> set evs'"
    using h(5) by (simp add: evs'_def)
  have "spill_loop ((g # goods) @ bad # rest) False s = Finished (Some (Error c), s')"
    using step h(1) by simp
  then show ?case
    using h(2) t ng wr h(6-9) s2f(2-5) by metis
qed

lemma spill_defer_Some:
  assumes "spilling_stream s = Some stream"
  shows "\<exists>s'. spill_defer s = Finished s' \<and>
           trace s' = trace s @ [EndSpill stream (sink_status s)]
              @ (if eos s then [DepSetReadyToRead, FinishDepSetReady] else [DepSetReady])
              @ [SpillCvNotifyOne] \<and>
           \<not> is_spilling s' \<and> spilling_stream s' = None \<and> sink_status s' = sink_status s \<and>
           eos s' = eos s \<and>
           sorted_streams s' = (if ok (sink_status s) then sorted_streams s else [])"
  using assms by (simp add: spill_defer_def Let_def)

lemma spill_body_exits:
  assumes "spilling_stream s = Some stream"
    and "\<not> ok (prepare_for_spill env) \<or> loop_exits (iterations env) False"
  shows "\<exists>status s1 evs. spill_body env s = Finished (status, s1) \<and>
           trace s1 = trace s @ SorterPrepareForSpill # evs \<and>
           (\<forall>ev\<in>set evs. drain_event ev) \<and>
           spilling_stream s1 = Some stream \<and> eos s1 = eos s \<and>
           is_spilling s1 = is_spilling s \<and> sorted_streams s1 = sorted_streams s"
proof (cases "ok (prepare_for_spill env)")
  case False
  then show ?thesis using assms(1) by (simp add: spill_body_def Let_def)
next
  case True
  define s0 where "s0 = emit SorterPrepareForSpill (s\<lparr>sink_status := prepare_for_spill env\<rparr>)"
  have s0f: "spilling_stream s0 = Some stream" "trace s0 = trace s @ [SorterPrepareForSpill]"
    "eos s0 = eos s" "is_spilling s0 = is_spilling s" "sorted_streams s0 = sorted_streams s"
    "sink_status s0 = prepare_for_spill env"
    using assms(1) by (simp_all add: s0_def)
  have "loop_exits (iterations env) False"
    using assms(2) True by simp
  from spill_loop_exits [OF s0f(1) this]
  obtain r s' evs where
    h: "spill_loop (iterations env) False s0 = Finished (r, s')"
      "trace s' = trace s0 @ evs" "\<forall>ev\<in>set evs. drain_event ev"
      "spilling_stream s' = Some stream" "eos s' = eos s0"
      "is_spilling s' = is_spilling s0" "sorted_streams s' = sorted_streams s0"
    by blast
  have body: "spill_body env s =
      (case r of Some status \<Rightarrow> Finished (status, s') | None \<Rightarrow> Finished (OK, emit SorterReset s'))"
    using True h(1) by (simp add: spill_body_def Let_def s0_def [symmetric] s0f(6) split: option.splits)
  show ?thesis
  proof (cases r)
    case None
    have "trace (emit SorterReset s') = trace s @ SorterPrepareForSpill # (evs @ [SorterReset])"
      using h(2) s0f(2) by simp
    moreover have "\<forall>ev\<in>set (evs @ [SorterReset]). drain_event ev"
      using h(3) by simp
    moreover have "spill_body env s = Finished (OK, emit SorterReset s')"
      using body None by simp
    ultimately show ?thesis
      using h(4-7) s0f(3-5) by (metis emit_fields(3,5,6,7))
  next
    case (Some status)
    have "trace s' = trace s @ SorterPrepareForSpill # evs"
      using h(2) s0f(2) by simp
    moreover have "spill_body env s = Finished (status, s')"
      using body Some by simp
    ultimately show ?thesis
      using h(3-7) s0f(3-5) by metis
  qed
qed

lemma spill_func_exits:
  assumes "spilling_stream s = Some stream"
    and "\<not> ok (prepare_for_spill env) \<or> loop_exits (iterations env) False"
  shows "\<exists>s' evs. spill_func env s = Finished s' \<and>
           trace s' = trace s @ SorterPrepareForSpill # evs @ [EndSpill stream (sink_status s')]
              @ (if eos s then [DepSetReadyToRead, FinishDepSetReady] else [DepSetReady])
              @ [SpillCvNotifyOne] \<and>
           (\<forall>ev\<in>set evs. drain_event ev) \<and> \<not> is_spilling s'"
proof -
  from spill_body_exits [OF assms]
  obtain status sb evs where
    b: "spill_body env s = Finished (status, sb)"
      "trace sb = trace s @ SorterPrepareForSpill # evs"
      "\<forall>ev\<in>set evs. drain_event ev"
      "spilling_stream sb = Some stream" "eos sb = eos s"
    by blast
  from spill_defer_Some [OF b(4)]
  obtain s' where
    d: "spill_defer sb = Finished s'"
      "trace s' = trace sb @ [EndSpill stream (sink_status sb)]
              @ (if eos sb then [DepSetReadyToRead, FinishDepSetReady] else [DepSetReady])
              @ [SpillCvNotifyOne]"
      "\<not> is_spilling s'" "sink_status s' = sink_status sb"
    by blast
  have f: "spill_func env s = Finished s'"
    using b(1) d(1) by (simp add: spill_func_def)
  have t: "trace s' = trace s @ SorterPrepareForSpill # evs @ [EndSpill stream (sink_status s')]
              @ (if eos s then [DepSetReadyToRead, FinishDepSetReady] else [DepSetReady])
              @ [SpillCvNotifyOne]"
    using d(2) b(2) d(4) b(5) by simp
  show ?thesis
    using f t b(3) d(3) by blast
qed

subsubsection \<open>\<^verbatim>\<open>sink\<close>\<close>

text \<open>
  A call that finds no latched failure runs lines 166 to 171, which leave a state \<open>s4\<close>,
  and then takes one of the branches of lines 171 to 187.
\<close>

lemma sink_ingest:
  assumes "ok (sink_status s)"
  shows "\<exists>s4. trace s4 = trace s @ [SorterSink in_block False] \<and> eos s4 = eos_in \<and>
           enable_spill s4 = enable_spill s \<and> sink_status s4 = sink_status s \<and>
           is_spilling s4 = is_spilling s \<and> sorted_streams s4 = sorted_streams s \<and>
           spilling_stream s4 = spilling_stream s \<and>
           sink env in_block eos_in s =
             (if \<not> ok (sorter_sink env) then Finished (sorter_sink env, s4)
              else if \<not> eos_in then Finished (OK, s4\<lparr>mem_consumption := sorter_data_size env\<rparr>)
              else if enable_spill s then
                if revocable_mem_size (sorter_revocable_mem_size env) s \<noteq> 0
                then revoke_memory (revoke env) (s4\<lparr>mem_consumption := sorter_data_size env\<rparr>)
                else Finished (OK, emit DepSetReadyToRead (s4\<lparr>mem_consumption := sorter_data_size env\<rparr>))
              else if \<not> ok (sorter_prepare_for_read env)
                then Finished (sorter_prepare_for_read env,
                       emit SorterPrepareForRead (s4\<lparr>mem_consumption := sorter_data_size env\<rparr>))
                else Finished (OK, emit DepSetReadyToRead
                       (emit SorterPrepareForRead (s4\<lparr>mem_consumption := sorter_data_size env\<rparr>))))"
proof -
  define s4 where "s4 =
     emit (SorterSink in_block False)
        ((if rows in_block > 0
          then update_spill_block_batch_row_count in_block
                 (s\<lparr>rows_input_counter := rows_input_counter s + of_nat (rows in_block)\<rparr>)
          else s\<lparr>rows_input_counter := rows_input_counter s + of_nat (rows in_block)\<rparr>)
         \<lparr>eos := eos_in\<rparr>)"
  have f: "trace s4 = trace s @ [SorterSink in_block False]" "eos s4 = eos_in"
    "enable_spill s4 = enable_spill s" "sink_status s4 = sink_status s"
    "is_spilling s4 = is_spilling s" "sorted_streams s4 = sorted_streams s"
    "spilling_stream s4 = spilling_stream s"
    by (simp_all add: s4_def)
  have r: "revocable_mem_size est (s4\<lparr>mem_consumption := m\<rparr>) = revocable_mem_size est s" for est m
    by (simp add: revocable_mem_size_def f)
  have c: "(case x of Aborted \<Rightarrow> Aborted | Running \<Rightarrow> Running
                 | Finished (status, s6) \<Rightarrow>
                     if \<not> ok status then Finished (status, s6) else Finished (OK, s6)) = x"
    for x :: "(status \<times> sink_state) exec"
    by (cases x) (auto simp add: return_if_error)
  have "sink env in_block eos_in s =
             (if \<not> ok (sorter_sink env) then Finished (sorter_sink env, s4)
              else if \<not> eos_in then Finished (OK, s4\<lparr>mem_consumption := sorter_data_size env\<rparr>)
              else if enable_spill s then
                if revocable_mem_size (sorter_revocable_mem_size env) s \<noteq> 0
                then revoke_memory (revoke env) (s4\<lparr>mem_consumption := sorter_data_size env\<rparr>)
                else Finished (OK, emit DepSetReadyToRead (s4\<lparr>mem_consumption := sorter_data_size env\<rparr>))
              else if \<not> ok (sorter_prepare_for_read env)
                then Finished (sorter_prepare_for_read env,
                       emit SorterPrepareForRead (s4\<lparr>mem_consumption := sorter_data_size env\<rparr>))
                else Finished (OK, emit DepSetReadyToRead
                       (emit SorterPrepareForRead (s4\<lparr>mem_consumption := sorter_data_size env\<rparr>))))"
    using assms unfolding sink_def Let_def s4_def [symmetric]
    by (simp add: f r c op_revoke_memory_def word_greater_zero_iff)
  then show ?thesis
    using f by blast
qed

lemma sink_forwards:
  assumes "ok (sink_status s)"
  shows "(\<exists>status s' evs. sink env in_block eos_in s = Finished (status, s') \<and>
            eos s' = eos_in \<and> sink_status s' = sink_status s \<and>
            trace s' = trace s @ SorterSink in_block False # evs \<and>
            (\<forall>b f. SorterSink b f \<notin> set evs) \<and> SorterPrepareForSpill \<notin> set evs \<and>
            (SorterPrepareForRead \<in> set evs \<longleftrightarrow>
               eos_in \<and> \<not> enable_spill s \<and> ok (sorter_sink env))) \<or>
         (\<exists>s5. trace s5 = trace s @ [SorterSink in_block False] \<and> eos_in \<and>
            sink env in_block eos_in s = revoke_memory (revoke env) s5 \<and>
            revoke_memory (revoke env) s5 = Aborted)"
proof -
  from sink_ingest [OF assms, of in_block eos_in env]
  obtain s4 where
    h: "trace s4 = trace s @ [SorterSink in_block False]"
      "eos s4 = eos_in" "sink_status s4 = sink_status s"
      "sink env in_block eos_in s =
             (if \<not> ok (sorter_sink env) then Finished (sorter_sink env, s4)
              else if \<not> eos_in then Finished (OK, s4\<lparr>mem_consumption := sorter_data_size env\<rparr>)
              else if enable_spill s then
                if revocable_mem_size (sorter_revocable_mem_size env) s \<noteq> 0
                then revoke_memory (revoke env) (s4\<lparr>mem_consumption := sorter_data_size env\<rparr>)
                else Finished (OK, emit DepSetReadyToRead (s4\<lparr>mem_consumption := sorter_data_size env\<rparr>))
              else if \<not> ok (sorter_prepare_for_read env)
                then Finished (sorter_prepare_for_read env,
                       emit SorterPrepareForRead (s4\<lparr>mem_consumption := sorter_data_size env\<rparr>))
                else Finished (OK, emit DepSetReadyToRead
                       (emit SorterPrepareForRead (s4\<lparr>mem_consumption := sorter_data_size env\<rparr>))))"
    by blast
  define s5 where "s5 = s4\<lparr>mem_consumption := sorter_data_size env\<rparr>"
  have s5f: "trace s5 = trace s @ [SorterSink in_block False]" "eos s5 = eos_in"
    "sink_status s5 = sink_status s"
    using h(1-3) by (simp_all add: s5_def)
  note sk = h(4) [folded s5_def]
  show ?thesis
  proof (cases "ok (sorter_sink env) \<and> eos_in \<and> enable_spill s \<and>
                revocable_mem_size (sorter_revocable_mem_size env) s \<noteq> 0")
    case True
    then have eq: "sink env in_block eos_in s = revoke_memory (revoke env) s5"
      using sk by simp
    show ?thesis
    proof (cases "revoke_memory (revoke env) s5")
      case Aborted
      then show ?thesis
        using eq s5f(1) True by blast
    next
      case Running
      then show ?thesis
        by (simp add: revoke_memory_outcome)
    next
      case (Finished r)
      obtain status s' where r: "r = (status, s')"
        by (cases r)
      note fin = Finished [unfolded r]
      from revoke_memory_frame [OF fin]
      obtain evs where
        e: "eos s' = eos s5" "sink_status s' = sink_status s5"
          "trace s' = trace s5 @ evs" "\<forall>b f. SorterSink b f \<notin> set evs"
          "SorterPrepareForRead \<notin> set evs" "SorterPrepareForSpill \<notin> set evs"
        by blast
      have "trace s' = trace s @ SorterSink in_block False # evs"
        using e(3) s5f(1) by simp
      moreover have "sink env in_block eos_in s = Finished (status, s')"
        using eq fin by simp
      moreover have "eos s' = eos_in" "sink_status s' = sink_status s"
        using e(1,2) s5f(2,3) by simp_all
      moreover have "SorterPrepareForRead \<in> set evs \<longleftrightarrow>
          eos_in \<and> \<not> enable_spill s \<and> ok (sorter_sink env)"
        using e(5) True by simp
      ultimately show ?thesis
        using e(4,6) by blast
    qed
  next
    case False
    show ?thesis
    proof (cases "ok (sorter_sink env)")
      case False
      then have "sink env in_block eos_in s = Finished (sorter_sink env, s4)"
        using sk by simp
      moreover have "trace s4 = trace s @ SorterSink in_block False # []"
        using h(1) by simp
      ultimately show ?thesis
        using False h(2,3) by fastforce
    next
      case True
      note oks = True
      show ?thesis
      proof (cases eos_in)
        case False
        then have "sink env in_block eos_in s = Finished (OK, s5)"
          using sk oks by simp
        moreover have "trace s5 = trace s @ SorterSink in_block False # []"
          using s5f(1) by simp
        ultimately show ?thesis
          using False s5f(2,3) by fastforce
      next
        case True
        note last_call = True
        show ?thesis
        proof (cases "enable_spill s")
          case True
          then have "sink env in_block eos_in s = Finished (OK, emit DepSetReadyToRead s5)"
            using sk oks last_call False by simp
          moreover have "trace (emit DepSetReadyToRead s5) =
              trace s @ SorterSink in_block False # [DepSetReadyToRead]"
            using s5f(1) by simp
          moreover have "eos (emit DepSetReadyToRead s5) = eos_in"
            "sink_status (emit DepSetReadyToRead s5) = sink_status s"
            using s5f(2,3) by simp_all
          ultimately show ?thesis
            using True by fastforce
        next
          case False
          note disabled = False
          show ?thesis
          proof (cases "ok (sorter_prepare_for_read env)")
            case False
            then have "sink env in_block eos_in s =
                Finished (sorter_prepare_for_read env, emit SorterPrepareForRead s5)"
              using sk oks last_call disabled by simp
            moreover have "trace (emit SorterPrepareForRead s5) =
                trace s @ SorterSink in_block False # [SorterPrepareForRead]"
              using s5f(1) by simp
            moreover have "eos (emit SorterPrepareForRead s5) = eos_in"
              "sink_status (emit SorterPrepareForRead s5) = sink_status s"
              using s5f(2,3) by simp_all
            ultimately show ?thesis
              using oks last_call disabled by fastforce
          next
            case True
            then have "sink env in_block eos_in s =
                Finished (OK, emit DepSetReadyToRead (emit SorterPrepareForRead s5))"
              using sk oks last_call disabled by simp
            moreover have "trace (emit DepSetReadyToRead (emit SorterPrepareForRead s5)) =
                trace s @ SorterSink in_block False # [SorterPrepareForRead, DepSetReadyToRead]"
              using s5f(1) by simp
            moreover have "eos (emit DepSetReadyToRead (emit SorterPrepareForRead s5)) = eos_in"
              "sink_status (emit DepSetReadyToRead (emit SorterPrepareForRead s5)) = sink_status s"
              using s5f(2,3) by simp_all
            ultimately show ?thesis
              using oks last_call disabled by fastforce
          qed
        qed
      qed
    qed
  qed
qed

lemma sink_latched:
  assumes "\<not> ok (sink_status s)"
  shows "sink env in_block eos_in s = Finished (sink_status s, s)"
  using assms by (simp add: sink_def)

lemma run_sinks_latched:
  assumes "\<not> ok (sink_status s)"
  shows "run_sinks calls s = Finished (replicate (length calls) (sink_status s), s)"
  using assms by (induction calls) (simp_all add: sink_latched)

lemma run_steps_append:
  "run_steps (xs @ ys) s =
     (case run_steps xs s of
        Aborted \<Rightarrow> Aborted
      | Running \<Rightarrow> Running
      | Finished s1 \<Rightarrow> run_steps ys s1)"
proof (induction xs arbitrary: s)
  case Nil
  then show ?case by simp
next
  case (Cons x xs)
  then show ?case
    by (cases x) (auto split: exec.splits prod.splits)
qed

lemma sink_not_last_returns: "sink env in_block False s \<noteq> Aborted"
  by (simp add: sink_def Let_def)


subsection \<open>The background job's cleanup after a failed drain\<close>

text \<open>
  C1. If the drain loop of a spill fails, after any number of batches read and written
  (the iterations \<open>goods\<close>), at the read or at the write of the iteration \<open>bad\<close>, then
  the closure finishes, its cleanup ends the run with the failure status
  (\<^verbatim>\<open>end_spill\<close>), and clears the shared state: the run list is empty afterwards,
  whatever runs it held, the sink is no longer spilling and holds no stream. The
  emptying of the list is that of \<^verbatim>\<open>clear\<close>, modelled from the spec.
\<close>

theorem spill_failure_clears_runs:
  assumes "spilling_stream s = Some stream"
    and "prepare_for_spill env = OK"
    and "iterations env = goods @ bad # rest"
    and "\<forall>it\<in>set goods. good_iter it"
    and "failing_iter bad c"
  shows "\<exists>s' evs. spill_func env s = Finished s' \<and>
           trace s' = trace s @ SorterPrepareForSpill # evs @ [EndSpill stream (Error c)]
              @ (if eos s then [DepSetReadyToRead, FinishDepSetReady] else [DepSetReady])
              @ [SpillCvNotifyOne] \<and>
           (\<forall>it\<in>set goods. SpillBlock stream (fst (snd (merge_sort_read_for_spill it))) False \<in> set evs) \<and>
           sink_status s' = Error c \<and> sorted_streams s' = [] \<and>
           \<not> is_spilling s' \<and> spilling_stream s' = None"
proof -
  define s0 where "s0 = emit SorterPrepareForSpill (s\<lparr>sink_status := prepare_for_spill env\<rparr>)"
  have s0f: "spilling_stream s0 = Some stream" "trace s0 = trace s @ [SorterPrepareForSpill]"
    "eos s0 = eos s" "sink_status s0 = OK"
    using assms(1,2) by (simp_all add: s0_def)
  from spill_loop_fails [OF s0f(1) assms(4,5), of rest]
  obtain sb evs where
    l: "spill_loop (goods @ bad # rest) False s0 = Finished (Some (Error c), sb)"
      "sink_status sb = Error c" "trace sb = trace s0 @ evs"
      "\<forall>it\<in>set goods. SpillBlock stream (fst (snd (merge_sort_read_for_spill it))) False \<in> set evs"
      "spilling_stream sb = Some stream" "eos sb = eos s0"
    by blast
  have body: "spill_body env s = Finished (Error c, sb)"
    unfolding spill_body_def Let_def s0_def [symmetric] assms(3) l(1) by (simp add: s0f(4))
  from spill_defer_Some [OF l(5)]
  obtain s' where
    d: "spill_defer sb = Finished s'"
      "trace s' = trace sb @ [EndSpill stream (sink_status sb)]
              @ (if eos sb then [DepSetReadyToRead, FinishDepSetReady] else [DepSetReady])
              @ [SpillCvNotifyOne]"
      "\<not> is_spilling s'" "spilling_stream s' = None" "sink_status s' = sink_status sb"
      "sorted_streams s' = (if ok (sink_status sb) then sorted_streams sb else [])"
    by blast
  have f: "spill_func env s = Finished s'"
    using body d(1) by (simp add: spill_func_def)
  have t: "trace s' = trace s @ SorterPrepareForSpill # evs @ [EndSpill stream (Error c)]
              @ (if eos s then [DepSetReadyToRead, FinishDepSetReady] else [DepSetReady])
              @ [SpillCvNotifyOne]"
    using d(2) l(2,3,6) s0f(2,3) by simp
  have "sorted_streams s' = []" "sink_status s' = Error c"
    using d(5,6) l(2) by simp_all
  then show ?thesis
    using f t l(4) d(3,4) by blast
qed

text \<open>
  The sink that holds the completed run 3 and spills run 7: one batch is written, the
  write of the second fails with code 5.
\<close>

theorem spill_failure_clears_runs_witness:
  "\<exists>s' evs. spill_func failing_spill_env spilling_state = Finished s' \<and>
     trace s' = [FinishDepBlock, SorterPrepareForSpill] @ evs @
        [EndSpill 7 (Error 5), DepSetReady, SpillCvNotifyOne] \<and>
     SpillBlock 7 [1, 2] False \<in> set evs \<and>
     sink_status s' = Error 5 \<and> sorted_streams s' = [] \<and>
     \<not> is_spilling s' \<and> spilling_stream s' = None"
proof -
  have h1: "spilling_stream spilling_state = Some 7"
    by (simp add: example_defs)
  have h2: "prepare_for_spill failing_spill_env = OK"
    by (simp add: example_defs)
  have h3: "iterations failing_spill_env =
      [batch_iter [1, 2] False] @ (batch_iter [3] True)\<lparr>spill_block := Error 5\<rparr> # []"
    by (simp add: failing_spill_env_def)
  have h4: "\<forall>it\<in>set [batch_iter [1, 2] False]. good_iter it"
    by (simp add: good_iter_def batch_iter_def)
  have h5: "failing_iter ((batch_iter [3] True)\<lparr>spill_block := Error 5\<rparr>) 5"
    by (simp add: failing_iter_def batch_iter_def)
  from spill_failure_clears_runs [OF h1 h2 h3 h4 h5]
  show ?thesis
    by (simp add: example_defs)
qed

subsection \<open>\<^verbatim>\<open>revoke_memory\<close> when the set-up of the stream fails\<close>

text \<open>
  C2. On a fresh sink with spill enabled, not at the end of the stream,
  \<^verbatim>\<open>revoke_memory\<close> returns the error of a failed \<^verbatim>\<open>register_spill_stream\<close>, and
  the error of a failed \<^verbatim>\<open>prepare_spill\<close>, as it got it; but it returns with
  \<^verbatim>\<open>_is_spilling\<close> still set, and it has not signalled the dependency: the trace ends
  with the call that failed.
\<close>

theorem revoke_memory_setup_failure_keeps_spilling:
  "revoke_memory register_failure_env (init_state True) =
     Finished (Error 1,
       (init_state True)\<lparr>is_spilling := True,
          trace := [FinishDepBlock, RegisterSpillStream None]\<rparr>) \<and>
   revoke_memory prepare_failure_env (init_state True) =
     Finished (Error 2,
       (init_state True)\<lparr>is_spilling := True, spilling_stream := Some 7,
          trace := [FinishDepBlock, RegisterSpillStream None, PrepareSpill 7]\<rparr>)"
  by (simp add: revoke_memory_def example_defs Let_def emit_def)

subsection \<open>The end-of-stream flag over a sequence of \<^verbatim>\<open>sink\<close> calls\<close>

text \<open>
  The flag is not sticky. With spill disabled, a call with \<open>eos = true\<close> sets it and
  signals the read side; a later call with \<open>eos = false\<close> clears it again, and its
  block is counted and forwarded to the delegate like any other.
\<close>

theorem eos_not_sticky:
  "run_sinks [(ok_sink_env, [1, 2], True)] (init_state False) =
     Finished ([OK],
       (init_state False)\<lparr>spill_block_batch_row_count := Some 2, eos := True,
          rows_input_counter := 2, mem_consumption := 64,
          trace := [SorterSink [1, 2] False, SorterPrepareForRead, DepSetReadyToRead]\<rparr>) \<and>
   run_sinks [(ok_sink_env, [1, 2], True), (ok_sink_env, [3], False)] (init_state False) =
     Finished ([OK, OK],
       (init_state False)\<lparr>spill_block_batch_row_count := Some 2, eos := False,
          rows_input_counter := 3, mem_consumption := 64,
          trace := [SorterSink [1, 2] False, SorterPrepareForRead, DepSetReadyToRead,
                    SorterSink [3] False]\<rparr>)"
  by (simp add: sink_def example_defs Let_def emit_def rows_def
      update_spill_block_batch_row_count_def)

text \<open>
  C3, as amended. In every serialized schedule of one sink instance, whatever steps came
  before (a call with \<open>eos = true\<close> among them), a call of \<^verbatim>\<open>sink\<close> that finds no
  latched failure and does not stop on the \<^verbatim>\<open>DCHECK\<close> of \<^verbatim>\<open>revoke_memory\<close>
  returns, leaves the flag equal to its own \<open>eos\<close> argument, and has forwarded its block
  to the delegate, once, as its first action; a call that finds a latched failure leaves
  the state, and so the flag, as it found them.
\<close>

theorem eos_follows_call:
  assumes "run_steps pre s = Finished s1"
  shows "(ok (sink_status s1) \<and> sink env in_block eos_in s1 \<noteq> Aborted \<longrightarrow>
            (\<exists>s' evs. run_steps (pre @ [SinkCall env in_block eos_in]) s = Finished s' \<and>
               eos s' = eos_in \<and>
               trace s' = trace s1 @ SorterSink in_block False # evs \<and>
               (\<forall>b f. SorterSink b f \<notin> set evs))) \<and>
         (\<not> ok (sink_status s1) \<longrightarrow>
            run_steps (pre @ [SinkCall env in_block eos_in]) s = Finished s1)"
proof (intro conjI impI)
  assume a: "ok (sink_status s1) \<and> sink env in_block eos_in s1 \<noteq> Aborted"
  from sink_forwards [of s1 env in_block eos_in] a
  obtain status s' evs where
    h: "sink env in_block eos_in s1 = Finished (status, s')" "eos s' = eos_in"
      "trace s' = trace s1 @ SorterSink in_block False # evs"
      "\<forall>b f. SorterSink b f \<notin> set evs"
    by auto
  have "run_steps (pre @ [SinkCall env in_block eos_in]) s = Finished s'"
    using assms h(1) by (simp add: run_steps_append)
  then show "\<exists>s' evs. run_steps (pre @ [SinkCall env in_block eos_in]) s = Finished s' \<and>
               eos s' = eos_in \<and>
               trace s' = trace s1 @ SorterSink in_block False # evs \<and>
               (\<forall>b f. SorterSink b f \<notin> set evs)"
    using h(2-4) by blast
next
  assume "\<not> ok (sink_status s1)"
  then show "run_steps (pre @ [SinkCall env in_block eos_in]) s = Finished s1"
    using assms by (simp add: run_steps_append sink_latched)
qed

text \<open>
  A sink with spill enabled gets its last block, spills, and the job completes: a further
  call with \<open>eos = false\<close> clears the flag and its block is forwarded. When the job
  fails instead, the further call finds the failure latched and changes nothing.
\<close>

theorem eos_follows_call_witness:
  "(\<exists>s1 s' evs.
      run_steps [SinkCall ok_sink_env [1, 2] True, SpillJob ok_spill_env] (init_state True) =
        Finished s1 \<and> eos s1 \<and>
      run_steps [SinkCall ok_sink_env [1, 2] True, SpillJob ok_spill_env,
                 SinkCall ok_sink_env [3] False] (init_state True) = Finished s' \<and>
      \<not> eos s' \<and> trace s' = trace s1 @ SorterSink [3] False # evs) \<and>
   (\<exists>s1.
      run_steps [SinkCall ok_sink_env [1, 2] True, SpillJob failing_spill_env] (init_state True) =
        Finished s1 \<and> sink_status s1 = Error 5 \<and> eos s1 \<and>
      run_steps [SinkCall ok_sink_env [1, 2] True, SpillJob failing_spill_env,
                 SinkCall ok_sink_env [3] False] (init_state True) = Finished s1)"
proof -
  have "\<exists>s1. run_steps [SinkCall ok_sink_env [1, 2] True, SpillJob ok_spill_env] (init_state True) =
        Finished s1 \<and> eos s1 \<and> ok (sink_status s1)"
    by (simp add: sink_def op_revoke_memory_def revoke_memory_def revocable_mem_size_def
        spill_func_def spill_body_def spill_defer_def example_defs Let_def emit_def rows_def
        update_spill_block_batch_row_count_def)
  then obtain s1 where
    a: "run_steps [SinkCall ok_sink_env [1, 2] True, SpillJob ok_spill_env] (init_state True) =
        Finished s1" "eos s1" "ok (sink_status s1)"
    by blast
  from eos_follows_call [OF a(1), of ok_sink_env "[3]" False] a(3)
    sink_not_last_returns [of ok_sink_env "[3]" s1]
  obtain s' evs where
    "run_steps ([SinkCall ok_sink_env [1, 2] True, SpillJob ok_spill_env] @
                [SinkCall ok_sink_env [3] False]) (init_state True) = Finished s'"
    "eos s' = False" "trace s' = trace s1 @ SorterSink [3] False # evs"
    by blast
  then have first: "\<exists>s1 s' evs.
      run_steps [SinkCall ok_sink_env [1, 2] True, SpillJob ok_spill_env] (init_state True) =
        Finished s1 \<and> eos s1 \<and>
      run_steps [SinkCall ok_sink_env [1, 2] True, SpillJob ok_spill_env,
                 SinkCall ok_sink_env [3] False] (init_state True) = Finished s' \<and>
      \<not> eos s' \<and> trace s' = trace s1 @ SorterSink [3] False # evs"
    using a(1,2) by auto
  have "\<exists>s1. run_steps [SinkCall ok_sink_env [1, 2] True, SpillJob failing_spill_env] (init_state True) =
        Finished s1 \<and> sink_status s1 = Error 5 \<and> eos s1"
    by (simp add: sink_def op_revoke_memory_def revoke_memory_def revocable_mem_size_def
        spill_func_def spill_body_def spill_defer_def clear_def example_defs Let_def emit_def
        rows_def update_spill_block_batch_row_count_def)
  then obtain s2 where
    b: "run_steps [SinkCall ok_sink_env [1, 2] True, SpillJob failing_spill_env] (init_state True) =
        Finished s2" "sink_status s2 = Error 5" "eos s2"
    by blast
  from eos_follows_call [OF b(1), of ok_sink_env "[3]" False] b(2)
  have "run_steps ([SinkCall ok_sink_env [1, 2] True, SpillJob failing_spill_env] @
                [SinkCall ok_sink_env [3] False]) (init_state True) = Finished s2"
    by simp
  then have second: "\<exists>s1.
      run_steps [SinkCall ok_sink_env [1, 2] True, SpillJob failing_spill_env] (init_state True) =
        Finished s1 \<and> sink_status s1 = Error 5 \<and> eos s1 \<and>
      run_steps [SinkCall ok_sink_env [1, 2] True, SpillJob failing_spill_env,
                 SinkCall ok_sink_env [3] False] (init_state True) = Finished s1"
    using b by auto
  from first second show ?thesis
    by (rule conjI)
qed

subsection \<open>The dependency and the finish dependency around a spill\<close>

text \<open>
  C4. When \<^verbatim>\<open>revoke_memory\<close> gets its stream and submits the closure, and the
  closure leaves its drain loop (by its condition or by a failure), then: with
  \<^verbatim>\<open>_eos\<close> false the dependency is blocked before the closure is submitted, and the
  cleanup of the closure sets it ready; with \<^verbatim>\<open>_eos\<close> true the dependency is not
  blocked, and the cleanup marks the read side ready and sets the finish dependency ready.
  These signals of the cleanup come after every event of the drain and after
  \<^verbatim>\<open>end_spill\<close>; the waiter on the condition variable is notified last, in both
  cases.
\<close>

theorem spill_gate_protocol:
  assumes "\<not> (dcheck_on renv \<and> is_spilling s)"
    and "ok (sink_status s)"
    and "register_spill_stream renv = (OK, stream)"
    and "prepare_spill renv = OK"
    and "submit_func renv = OK"
    and "\<not> ok (prepare_for_spill jenv) \<or> loop_exits (iterations jenv) False"
  shows "\<exists>s1 s2 evs.
           revoke_memory renv s = Finished (OK, s1) \<and>
           trace s1 = trace s @ [RegisterSpillStream (spill_block_batch_row_count s), PrepareSpill stream]
              @ (if eos s then [] else [DepBlock]) @ [SubmitFunc stream] \<and>
           spill_func jenv s1 = Finished s2 \<and>
           trace s2 = trace s1 @ SorterPrepareForSpill # evs @ [EndSpill stream (sink_status s2)]
              @ (if eos s then [DepSetReadyToRead, FinishDepSetReady] else [DepSetReady])
              @ [SpillCvNotifyOne] \<and>
           (\<forall>ev\<in>set evs. drain_event ev \<and> \<not> gate_event ev) \<and> \<not> is_spilling s2"
proof -
  from revoke_memory_submitted [OF assms(1-5)]
  obtain s1 where
    r: "revoke_memory renv s = Finished (OK, s1)"
      "trace s1 = trace s @ [RegisterSpillStream (spill_block_batch_row_count s), PrepareSpill stream]
              @ (if eos s then [] else [DepBlock]) @ [SubmitFunc stream]"
      "spilling_stream s1 = Some stream" "eos s1 = eos s"
    by blast
  from spill_func_exits [OF r(3) assms(6)]
  obtain s2 evs where
    j: "spill_func jenv s1 = Finished s2"
      "trace s2 = trace s1 @ SorterPrepareForSpill # evs @ [EndSpill stream (sink_status s2)]
              @ (if eos s1 then [DepSetReadyToRead, FinishDepSetReady] else [DepSetReady])
              @ [SpillCvNotifyOne]"
      "\<forall>ev\<in>set evs. drain_event ev" "\<not> is_spilling s2"
    by blast
  have g: "\<forall>ev\<in>set evs. drain_event ev \<and> \<not> gate_event ev"
    using j(3) drain_event_cases(1) by blast
  have t: "trace s2 = trace s1 @ SorterPrepareForSpill # evs @ [EndSpill stream (sink_status s2)]
              @ (if eos s then [DepSetReadyToRead, FinishDepSetReady] else [DepSetReady])
              @ [SpillCvNotifyOne]"
    using j(2) r(4) by simp
  show ?thesis
    using r(1,2) j(1) t g j(4) by blast
qed

text \<open>
  A fresh sink under memory pressure (\<^verbatim>\<open>_eos\<close> false), and the same sink at the end
  of the stream, each with a spill of two batches that succeeds.
\<close>

theorem spill_gate_protocol_witness:
  "(\<exists>s1 s2 evs.
      revoke_memory ok_revoke_env (init_state True) = Finished (OK, s1) \<and>
      trace s1 = [FinishDepBlock, RegisterSpillStream None, PrepareSpill 7, DepBlock, SubmitFunc 7] \<and>
      spill_func ok_spill_env s1 = Finished s2 \<and>
      trace s2 = trace s1 @ SorterPrepareForSpill # evs @
         [EndSpill 7 (sink_status s2), DepSetReady, SpillCvNotifyOne] \<and>
      \<not> is_spilling s2) \<and>
   (\<exists>s1 s2 evs.
      revoke_memory ok_revoke_env ((init_state True)\<lparr>eos := True\<rparr>) = Finished (OK, s1) \<and>
      trace s1 = [FinishDepBlock, RegisterSpillStream None, PrepareSpill 7, SubmitFunc 7] \<and>
      spill_func ok_spill_env s1 = Finished s2 \<and>
      trace s2 = trace s1 @ SorterPrepareForSpill # evs @
         [EndSpill 7 (sink_status s2), DepSetReadyToRead, FinishDepSetReady, SpillCvNotifyOne] \<and>
      \<not> is_spilling s2)"
proof -
  have h1: "\<not> (dcheck_on ok_revoke_env \<and> is_spilling (init_state True))"
    "\<not> (dcheck_on ok_revoke_env \<and> is_spilling ((init_state True)\<lparr>eos := True\<rparr>))"
    by (simp_all add: example_defs)
  have h2: "ok (sink_status (init_state True))"
    "ok (sink_status ((init_state True)\<lparr>eos := True\<rparr>))"
    by (simp_all add: example_defs)
  have h3: "register_spill_stream ok_revoke_env = (OK, 7)"
    and h4: "prepare_spill ok_revoke_env = OK"
    and h5: "submit_func ok_revoke_env = OK"
    by (simp_all add: example_defs)
  have h6: "\<not> ok (prepare_for_spill ok_spill_env) \<or> loop_exits (iterations ok_spill_env) False"
    by (simp add: example_defs)
  from spill_gate_protocol [OF h1(1) h2(1) h3 h4 h5 h6]
  have a: "\<exists>s1 s2 evs.
      revoke_memory ok_revoke_env (init_state True) = Finished (OK, s1) \<and>
      trace s1 = [FinishDepBlock, RegisterSpillStream None, PrepareSpill 7, DepBlock, SubmitFunc 7] \<and>
      spill_func ok_spill_env s1 = Finished s2 \<and>
      trace s2 = trace s1 @ SorterPrepareForSpill # evs @
         [EndSpill 7 (sink_status s2), DepSetReady, SpillCvNotifyOne] \<and>
      \<not> is_spilling s2"
    by (simp add: example_defs) blast
  from spill_gate_protocol [OF h1(2) h2(2) h3 h4 h5 h6]
  have b: "\<exists>s1 s2 evs.
      revoke_memory ok_revoke_env ((init_state True)\<lparr>eos := True\<rparr>) = Finished (OK, s1) \<and>
      trace s1 = [FinishDepBlock, RegisterSpillStream None, PrepareSpill 7, SubmitFunc 7] \<and>
      spill_func ok_spill_env s1 = Finished s2 \<and>
      trace s2 = trace s1 @ SorterPrepareForSpill # evs @
         [EndSpill 7 (sink_status s2), DepSetReadyToRead, FinishDepSetReady, SpillCvNotifyOne] \<and>
      \<not> is_spilling s2"
    by (simp add: example_defs) blast
  from a b show ?thesis
    by (rule conjI)
qed

subsection \<open>\<^verbatim>\<open>revocable_mem_size\<close>\<close>

text \<open>
  C5. \<^verbatim>\<open>revocable_mem_size\<close> returns 0 when spill is disabled; when spill is enabled
  and the shared status carries a failure it returns \<^verbatim>\<open>UINT64_MAX\<close>, which no value
  of the type exceeds; otherwise it returns the delegate's estimate.
\<close>

theorem revocable_mem_size_cases:
  "(\<not> enable_spill s \<longrightarrow> revocable_mem_size est s = 0) \<and>
   (enable_spill s \<and> \<not> ok (sink_status s) \<longrightarrow>
      revocable_mem_size est s = UINT64_MAX \<and> (\<forall>w. w \<le> revocable_mem_size est s)) \<and>
   (enable_spill s \<and> ok (sink_status s) \<longrightarrow> revocable_mem_size est s = est)"
  by (simp add: revocable_mem_size_def UINT64_MAX_top)

theorem revocable_mem_size_cases_witness:
  "revocable_mem_size 64 (init_state False) = 0 \<and>
   revocable_mem_size 64 failed_state = UINT64_MAX \<and>
   revocable_mem_size 64 (init_state True) = 64"
proof -
  have a: "\<not> enable_spill (init_state False)"
    by (simp add: example_defs)
  have b: "enable_spill failed_state \<and> \<not> ok (sink_status failed_state)"
    by (simp add: example_defs)
  have c: "enable_spill (init_state True) \<and> ok (sink_status (init_state True))"
    by (simp add: example_defs)
  from revocable_mem_size_cases [where s = "init_state False" and est = 64] a
  have r1: "revocable_mem_size 64 (init_state False) = 0"
    by blast
  from revocable_mem_size_cases [where s = failed_state and est = 64] b
  have r2: "revocable_mem_size 64 failed_state = UINT64_MAX"
    by blast
  from revocable_mem_size_cases [where s = "init_state True" and est = 64] c
  have r3: "revocable_mem_size 64 (init_state True) = 64"
    by blast
  from r1 r2 r3 show ?thesis
    by simp
qed

subsection \<open>Calls on a latched failure\<close>

text \<open>
  When the shared status carries a failure, \<^verbatim>\<open>sink\<close> returns that failure and the
  state it leaves is the state it found: no counter, no row count, no flag has changed
  and no collaborator was called (the trace is part of the state). So every later call
  of a serialized sequence of \<^verbatim>\<open>sink\<close> calls returns the same failure and leaves the
  same state. A call of \<^verbatim>\<open>revoke_memory\<close> that passes its \<^verbatim>\<open>DCHECK\<close> returns
  the failure too, and leaves every field other than \<^verbatim>\<open>_is_spilling\<close> as it found
  it.
\<close>

theorem sink_latched_failure:
  assumes "sink_status s = Error c"
  shows "sink env in_block eos_in s = Finished (Error c, s) \<and>
         run_sinks calls s = Finished (replicate (length calls) (Error c), s) \<and>
         (\<not> (dcheck_on renv \<and> is_spilling s) \<longrightarrow>
            (\<exists>s'. revoke_memory renv s = Finished (Error c, s') \<and>
               s'\<lparr>is_spilling := is_spilling s\<rparr> = s))"
  using assms sink_latched [of s env in_block eos_in] run_sinks_latched [of s calls]
    revoke_memory_latched_failure [of s c renv]
  by simp

theorem sink_latched_failure_example:
  "sink ok_sink_env [1, 2] True failed_state = Finished (Error 9, failed_state) \<and>
   run_sinks [(ok_sink_env, [1, 2], False), (ok_sink_env, [3], True)] failed_state =
     Finished ([Error 9, Error 9], failed_state) \<and>
   (\<exists>s'. revoke_memory ok_revoke_env failed_state = Finished (Error 9, s') \<and>
      s'\<lparr>is_spilling := False\<rparr> = failed_state)"
proof -
  have h: "sink_status failed_state = Error 9"
    and d: "\<not> (dcheck_on ok_revoke_env \<and> is_spilling failed_state)"
    and f: "is_spilling failed_state = False"
    by (simp_all add: example_defs)
  from sink_latched_failure [OF h, of ok_sink_env "[1, 2]" True
      "[(ok_sink_env, [1, 2], False), (ok_sink_env, [3], True)]" ok_revoke_env] d
  show ?thesis
    unfolding f by simp
qed

text \<open>
  C6. On a sink whose shared status carries a failure (spill enabled, not spilling),
  \<^verbatim>\<open>revoke_memory\<close> returns the failure, but not in the way \<^verbatim>\<open>sink\<close> does: it
  leaves \<^verbatim>\<open>_is_spilling\<close> set, since line 191 comes before the check of line 195 and
  the return of line 195 does not reset it. In a debug build the next call of
  \<^verbatim>\<open>revoke_memory\<close> then stops on the \<^verbatim>\<open>DCHECK\<close> of line 190 instead of
  returning the failure.
\<close>

theorem latched_revoke_memory_sets_spilling:
  "revoke_memory ok_revoke_env failed_state =
     Finished (Error 9, failed_state\<lparr>is_spilling := True\<rparr>) \<and>
   revoke_memory ok_revoke_env (failed_state\<lparr>is_spilling := True\<rparr>) = Aborted"
  by (simp add: revoke_memory_def example_defs Let_def)

subsection \<open>\<^verbatim>\<open>revoke_memory\<close> when the submission fails\<close>

text \<open>
  After a failed \<^verbatim>\<open>submit_func\<close> on a fresh sink the run of the attempt, stream 7,
  is still in the shared run list, and \<^verbatim>\<open>_spilling_stream\<close> still points to it.
\<close>

theorem submit_failure_keeps_run:
  "revoke_memory submit_failure_env (init_state True) =
     Finished (Error 3,
       (init_state True)\<lparr>sorted_streams := [7], spilling_stream := Some 7,
          trace := [FinishDepBlock, RegisterSpillStream None, PrepareSpill 7, DepBlock,
                    SubmitFunc 7, EndSpill 7 (Error 3), DepSetReady]\<rparr>)"
  by (simp add: revoke_memory_def example_defs Let_def emit_def)

text \<open>
  C7, as amended. If the submission of the closure fails, \<^verbatim>\<open>revoke_memory\<close> ends the
  run with the failure of the submission (\<^verbatim>\<open>end_spill\<close>), restores
  \<^verbatim>\<open>_is_spilling\<close> to false, sets the dependency ready again when the call is not
  the end-of-stream call, and returns the failure of the submission.
\<close>

theorem revoke_memory_submit_failure:
  assumes "\<not> (dcheck_on env \<and> is_spilling s)"
    and "ok (sink_status s)"
    and "register_spill_stream env = (OK, stream)"
    and "prepare_spill env = OK"
    and "submit_func env = Error c"
  shows "\<exists>s'. revoke_memory env s = Finished (Error c, s') \<and> \<not> is_spilling s' \<and>
           trace s' = trace s @ [RegisterSpillStream (spill_block_batch_row_count s), PrepareSpill stream]
              @ (if eos s then [] else [DepBlock])
              @ [SubmitFunc stream, EndSpill stream (Error c)]
              @ (if eos s then [] else [DepSetReady])"
  using assms by (auto simp add: revoke_memory_def Let_def)

theorem revoke_memory_submit_failure_witness:
  "\<exists>s'. revoke_memory submit_failure_env (init_state True) = Finished (Error 3, s') \<and>
     \<not> is_spilling s' \<and>
     trace s' = [FinishDepBlock, RegisterSpillStream None, PrepareSpill 7, DepBlock,
                 SubmitFunc 7, EndSpill 7 (Error 3), DepSetReady]"
proof -
  have h1: "\<not> (dcheck_on submit_failure_env \<and> is_spilling (init_state True))"
    and h2: "ok (sink_status (init_state True))"
    and h3: "register_spill_stream submit_failure_env = (OK, 7)"
    and h4: "prepare_spill submit_failure_env = OK"
    and h5: "submit_func submit_failure_env = Error 3"
    by (simp_all add: example_defs)
  from revoke_memory_submit_failure [OF h1 h2 h3 h4 h5]
  show ?thesis
    by (simp add: example_defs)
qed


subsection \<open>\<^verbatim>\<open>sink\<close> at the end of the stream\<close>

text \<open>
  On a sink with spill enabled whose shared status carries a failure, the revocable size
  is \<^verbatim>\<open>UINT64_MAX\<close>, not zero; a call of \<^verbatim>\<open>sink\<close> with \<open>eos = true\<close>
  returns the failure and does not call \<^verbatim>\<open>revoke_memory\<close>: the state is as it
  was. On a sink with spill disabled whose sorter fails in \<^verbatim>\<open>prepare_for_read\<close>,
  the call returns that failure and the read side is not marked ready.
\<close>

theorem guarded_end_of_stream:
  "enable_spill failed_state \<and>
   revocable_mem_size (sorter_revocable_mem_size ok_sink_env) failed_state = UINT64_MAX \<and>
   UINT64_MAX \<noteq> 0 \<and>
   sink ok_sink_env [1, 2] True failed_state = Finished (Error 9, failed_state) \<and>
   sink (ok_sink_env\<lparr>sorter_prepare_for_read := Error 4\<rparr>) [1, 2] True (init_state False) =
     Finished (Error 4,
       (init_state False)\<lparr>spill_block_batch_row_count := Some 2, eos := True,
          rows_input_counter := 2, mem_consumption := 64,
          trace := [SorterSink [1, 2] False, SorterPrepareForRead]\<rparr>)"
  by (simp add: sink_def revocable_mem_size_def UINT64_MAX_def example_defs Let_def emit_def
      rows_def update_spill_block_batch_row_count_def)

text \<open>
  C8, as amended. A call of \<^verbatim>\<open>sink\<close> with \<open>eos = true\<close> that finds no latched failure and
  whose block the delegate accepts reaches line 174 in a state \<open>s5\<close> (the block
  forwarded, \<^verbatim>\<open>_eos\<close> set, the rest of the spill state and so the revocable
  size as they were). From there: with
  spill enabled and a revocable size that is not zero, the call is the call of
  \<^verbatim>\<open>revoke_memory\<close> on \<open>s5\<close>; with spill enabled and a revocable size of zero, it
  marks the read side ready and returns OK; with spill disabled, it calls the sorter's
  \<^verbatim>\<open>prepare_for_read\<close> and, when that succeeds, then marks the read side ready and
  returns OK.
\<close>

theorem sink_end_of_stream:
  assumes "ok (sink_status s)" and "sorter_sink env = OK"
  shows "\<exists>s5. trace s5 = trace s @ [SorterSink in_block False] \<and> eos s5 \<and>
           enable_spill s5 = enable_spill s \<and> sink_status s5 = sink_status s \<and>
           is_spilling s5 = is_spilling s \<and> sorted_streams s5 = sorted_streams s \<and>
           spilling_stream s5 = spilling_stream s \<and>
           revocable_mem_size (sorter_revocable_mem_size env) s5 =
             revocable_mem_size (sorter_revocable_mem_size env) s \<and>
           (enable_spill s \<and> revocable_mem_size (sorter_revocable_mem_size env) s \<noteq> 0 \<longrightarrow>
              sink env in_block True s = op_revoke_memory (revoke env) s5 \<and>
              op_revoke_memory (revoke env) s5 = revoke_memory (revoke env) s5) \<and>
           (enable_spill s \<and> revocable_mem_size (sorter_revocable_mem_size env) s = 0 \<longrightarrow>
              sink env in_block True s = Finished (OK, emit DepSetReadyToRead s5)) \<and>
           (\<not> enable_spill s \<and> sorter_prepare_for_read env = OK \<longrightarrow>
              sink env in_block True s =
                Finished (OK, emit DepSetReadyToRead (emit SorterPrepareForRead s5)))"
proof -
  from sink_ingest [OF assms(1), of in_block True env]
  obtain s4 where
    h: "trace s4 = trace s @ [SorterSink in_block False]" "eos s4 = True"
      "enable_spill s4 = enable_spill s" "sink_status s4 = sink_status s"
      "is_spilling s4 = is_spilling s" "sorted_streams s4 = sorted_streams s"
      "spilling_stream s4 = spilling_stream s"
      "sink env in_block True s =
             (if \<not> ok (sorter_sink env) then Finished (sorter_sink env, s4)
              else if \<not> True then Finished (OK, s4\<lparr>mem_consumption := sorter_data_size env\<rparr>)
              else if enable_spill s then
                if revocable_mem_size (sorter_revocable_mem_size env) s \<noteq> 0
                then revoke_memory (revoke env) (s4\<lparr>mem_consumption := sorter_data_size env\<rparr>)
                else Finished (OK, emit DepSetReadyToRead (s4\<lparr>mem_consumption := sorter_data_size env\<rparr>))
              else if \<not> ok (sorter_prepare_for_read env)
                then Finished (sorter_prepare_for_read env,
                       emit SorterPrepareForRead (s4\<lparr>mem_consumption := sorter_data_size env\<rparr>))
                else Finished (OK, emit DepSetReadyToRead
                       (emit SorterPrepareForRead (s4\<lparr>mem_consumption := sorter_data_size env\<rparr>))))"
    by blast
  define s5 where "s5 = s4\<lparr>mem_consumption := sorter_data_size env\<rparr>"
  have f: "trace s5 = trace s @ [SorterSink in_block False]" "eos s5"
    "enable_spill s5 = enable_spill s" "sink_status s5 = sink_status s"
    "is_spilling s5 = is_spilling s" "sorted_streams s5 = sorted_streams s"
    "spilling_stream s5 = spilling_stream s"
    using h(1-7) by (simp_all add: s5_def)
  have sk: "sink env in_block True s =
             (if enable_spill s then
                if revocable_mem_size (sorter_revocable_mem_size env) s \<noteq> 0
                then revoke_memory (revoke env) s5
                else Finished (OK, emit DepSetReadyToRead s5)
              else if \<not> ok (sorter_prepare_for_read env)
                then Finished (sorter_prepare_for_read env, emit SorterPrepareForRead s5)
                else Finished (OK, emit DepSetReadyToRead (emit SorterPrepareForRead s5)))"
    using h(8) assms(2) by (simp add: s5_def)
  have rv: "revocable_mem_size (sorter_revocable_mem_size env) s5 =
      revocable_mem_size (sorter_revocable_mem_size env) s"
    by (simp add: revocable_mem_size_def f)
  have opr: "enable_spill s \<Longrightarrow> op_revoke_memory (revoke env) s5 = revoke_memory (revoke env) s5"
    by (simp add: op_revoke_memory_def f)
  have b1: "enable_spill s \<Longrightarrow> revocable_mem_size (sorter_revocable_mem_size env) s \<noteq> 0 \<Longrightarrow>
      sink env in_block True s = op_revoke_memory (revoke env) s5"
    using sk opr by simp
  have b2: "enable_spill s \<Longrightarrow> revocable_mem_size (sorter_revocable_mem_size env) s = 0 \<Longrightarrow>
      sink env in_block True s = Finished (OK, emit DepSetReadyToRead s5)"
    using sk by simp
  have b3: "\<not> enable_spill s \<Longrightarrow> sorter_prepare_for_read env = OK \<Longrightarrow>
      sink env in_block True s = Finished (OK, emit DepSetReadyToRead (emit SorterPrepareForRead s5))"
    using sk by simp
  show ?thesis
    using f rv b1 opr b2 b3 by blast
qed

text \<open>
  The three branches: a sink with spill enabled and 64 revocable bytes, the same sink
  with nothing revocable, and a sink with spill disabled.
\<close>

theorem sink_end_of_stream_witness:
  "(\<exists>s5. trace s5 = [FinishDepBlock, SorterSink [1, 2] False] \<and> eos s5 \<and>
      sink ok_sink_env [1, 2] True (init_state True) = revoke_memory ok_revoke_env s5) \<and>
   (\<exists>s5. trace s5 = [FinishDepBlock, SorterSink [1, 2] False] \<and> eos s5 \<and>
      sink empty_sink_env [1, 2] True (init_state True) =
        Finished (OK, emit DepSetReadyToRead s5)) \<and>
   (\<exists>s5. trace s5 = [SorterSink [1, 2] False] \<and> eos s5 \<and>
      sink ok_sink_env [1, 2] True (init_state False) =
        Finished (OK, emit DepSetReadyToRead (emit SorterPrepareForRead s5)))"
proof -
  have h1: "ok (sink_status (init_state True))" "ok (sink_status (init_state False))"
    by (simp_all add: example_defs)
  have h2: "sorter_sink ok_sink_env = OK" "sorter_sink empty_sink_env = OK"
    by (simp_all add: example_defs)
  have c1: "enable_spill (init_state True) \<and>
      revocable_mem_size (sorter_revocable_mem_size ok_sink_env) (init_state True) \<noteq> 0"
    by (simp add: example_defs revocable_mem_size_def)
  have c2: "enable_spill (init_state True) \<and>
      revocable_mem_size (sorter_revocable_mem_size empty_sink_env) (init_state True) = 0"
    by (simp add: example_defs revocable_mem_size_def)
  have c3: "\<not> enable_spill (init_state False) \<and> sorter_prepare_for_read ok_sink_env = OK"
    by (simp add: example_defs)
  have r: "revoke ok_sink_env = ok_revoke_env"
    by (simp add: example_defs)
  have t: "trace (init_state True) = [FinishDepBlock]" "trace (init_state False) = []"
    by (simp_all add: example_defs)
  from sink_end_of_stream [OF h1(1) h2(1), of "[1, 2]"] c1
  have a: "\<exists>s5. trace s5 = [FinishDepBlock, SorterSink [1, 2] False] \<and> eos s5 \<and>
      sink ok_sink_env [1, 2] True (init_state True) = revoke_memory ok_revoke_env s5"
    unfolding r t by (metis append_Cons append_Nil)
  from sink_end_of_stream [OF h1(1) h2(2), of "[1, 2]"] c2
  have b: "\<exists>s5. trace s5 = [FinishDepBlock, SorterSink [1, 2] False] \<and> eos s5 \<and>
      sink empty_sink_env [1, 2] True (init_state True) =
        Finished (OK, emit DepSetReadyToRead s5)"
    unfolding t by (metis append_Cons append_Nil)
  from sink_end_of_stream [OF h1(2) h2(1), of "[1, 2]"] c3
  have c: "\<exists>s5. trace s5 = [SorterSink [1, 2] False] \<and> eos s5 \<and>
      sink ok_sink_env [1, 2] True (init_state False) =
        Finished (OK, emit DepSetReadyToRead (emit SorterPrepareForRead s5))"
    unfolding t by (metis append_Nil)
  from a b c show ?thesis
    by blast
qed

subsection \<open>The end-of-stream flag given to the delegate\<close>




subsection \<open>The run list when the set-up of the stream fails\<close>

text \<open>
  C10. If \<^verbatim>\<open>register_spill_stream\<close> or \<^verbatim>\<open>prepare_spill\<close> fails, a call of
  \<^verbatim>\<open>revoke_memory\<close> (one that passes the \<^verbatim>\<open>DCHECK\<close>) returns a failure and
  leaves the shared run list as it found it: the stream is appended at line 209 only,
  after both have succeeded.
\<close>

theorem revoke_memory_setup_failure_frame:
  assumes "\<not> (dcheck_on env \<and> is_spilling s)"
    and "\<not> ok (fst (register_spill_stream env)) \<or> \<not> ok (prepare_spill env)"
  shows "\<exists>status s'. revoke_memory env s = Finished (status, s') \<and> \<not> ok status \<and>
           sorted_streams s' = sorted_streams s"
  using assms by (auto simp add: revoke_memory_def Let_def)

text \<open>The sink that holds the completed run 3, once with each of the two failures.\<close>

theorem revoke_memory_setup_failure_frame_witness:
  "(\<exists>status s'. revoke_memory register_failure_env ((init_state True)\<lparr>sorted_streams := [3]\<rparr>) =
        Finished (status, s') \<and> \<not> ok status \<and> sorted_streams s' = [3]) \<and>
   (\<exists>status s'. revoke_memory prepare_failure_env ((init_state True)\<lparr>sorted_streams := [3]\<rparr>) =
        Finished (status, s') \<and> \<not> ok status \<and> sorted_streams s' = [3])"
proof -
  have h1: "\<not> (dcheck_on register_failure_env \<and> is_spilling ((init_state True)\<lparr>sorted_streams := [3]\<rparr>))"
    "\<not> (dcheck_on prepare_failure_env \<and> is_spilling ((init_state True)\<lparr>sorted_streams := [3]\<rparr>))"
    by (simp_all add: example_defs)
  have h2: "\<not> ok (fst (register_spill_stream register_failure_env)) \<or>
      \<not> ok (prepare_spill register_failure_env)"
    "\<not> ok (fst (register_spill_stream prepare_failure_env)) \<or>
      \<not> ok (prepare_spill prepare_failure_env)"
    by (simp_all add: example_defs)
  from revoke_memory_setup_failure_frame [OF h1(1) h2(1)]
    revoke_memory_setup_failure_frame [OF h1(2) h2(2)]
  show ?thesis
    by simp
qed


end
